theory Spec2Isabelle
  imports Complex_Main "HOL-Library.Multiset"
begin

section \<open>Duplicate work item observer: a shallow embedding\<close>

text \<open>
  The development follows the class \<open>duplicateObserver\<close> of the extension. Strings are
  lists of characters, an absent JavaScript value (\<open>undefined\<close>, \<open>null\<close>) is \<open>None\<close>,
  numbers that are compared with thresholds are reals, and every promise is described
  by the moment at which it settles and by the way it settles.
\<close>

subsection \<open>Chunking of the query result\<close>

text \<open>
  \<open>Array.prototype.slice(i, j)\<close> clamps both ends to the length of the array.
\<close>

definition slice :: "'a list \<Rightarrow> nat \<Rightarrow> nat \<Rightarrow> 'a list" where
  "slice xs i j = take (j - i) (drop i xs)"

definition chunk :: nat where
  "chunk = 200"

text \<open>
  The loop \<open>for (i = 0, j = workItems.length; i < j; i += chunk)\<close> of
  \<open>validateWorkItem\<close>; the accumulator holds the slices pushed so far, in order.
\<close>

function chunk_loop :: "'a list \<Rightarrow> nat \<Rightarrow> 'a list list \<Rightarrow> 'a list list" where
  "chunk_loop workItems i acc =
     (if i < length workItems
      then chunk_loop workItems (i + chunk) (acc @ [slice workItems i (i + chunk)])
      else acc)"
  by pat_completeness auto
termination
  by (relation "measure (\<lambda>(workItems, i, acc). length workItems - i)") (auto simp: chunk_def)

declare chunk_loop.simps [simp del]

definition chunk_items :: "'a list \<Rightarrow> 'a list list" where
  "chunk_items workItems = chunk_loop workItems 0 []"

subsection \<open>Text normalisation\<close>

text \<open>
  A character is a code unit below 256. The white space class of the regular expressions
  and of \<open>trim\<close> holds, in that range, the code units 9 to 13, 32 and 160.
\<close>

definition is_space :: "char \<Rightarrow> bool" where
  "is_space c = ((of_char c :: nat) \<in> {9, 10, 11, 12, 13, 32, 160})"

text \<open>The character class of the first \<open>replace\<close>; every member of it is deleted.\<close>

definition punctuation :: "char list" where
  "punctuation = ''.,/#!$%^&*;:{}=-_`~()''"

definition remove_punctuation :: "string \<Rightarrow> string" where
  "remove_punctuation s = filter (\<lambda>c. c \<notin> set punctuation) s"

text \<open>
  The second \<open>replace\<close>: from left to right, every maximal run of two or more white
  space characters becomes one blank; a white space character that stands alone is kept.
\<close>

function collapse_whitespace :: "string \<Rightarrow> string" where
  "collapse_whitespace [] = []"
| "collapse_whitespace (c # cs) =
     (if is_space c
      then (if takeWhile is_space cs = [] then [c] else '' '')
             @ collapse_whitespace (dropWhile is_space cs)
      else c # collapse_whitespace cs)"
  by pat_completeness auto
termination
  by (relation "measure length") (auto simp: length_dropWhile_le less_Suc_eq_le)

definition trim :: "string \<Rightarrow> string" where
  "trim s = rev (dropWhile is_space (rev (dropWhile is_space s)))"

text \<open>
  \<open>toLowerCase\<close> on code units below 256: the letters A to Z and the accented capitals
  192 to 222 (but not the multiplication sign 215) move up by 32.
\<close>

definition toLowerCase_char :: "char \<Rightarrow> char" where
  "toLowerCase_char c =
     (let n = (of_char c :: nat)
      in if (65 \<le> n \<and> n \<le> 90) \<or> (192 \<le> n \<and> n \<le> 222 \<and> n \<noteq> 215)
         then char_of (n + 32) else c)"

definition toLowerCase :: "string \<Rightarrow> string" where
  "toLowerCase s = map toLowerCase_char s"

text \<open>
  \<open>normalizeString\<close>. An absent argument is \<open>None\<close>. The function \<open>striptags\<close> comes
  from a package outside the repository and is a parameter here.
\<close>

definition normalizeString :: "(string \<Rightarrow> string) \<Rightarrow> string option \<Rightarrow> string" where
  "normalizeString striptags orignial_text =
     (case orignial_text of
        None \<Rightarrow> []
      | Some s \<Rightarrow>
          if s \<noteq> []
          then toLowerCase (trim (collapse_whitespace (remove_punctuation (striptags s))))
          else [])"

text \<open>
  Modelled from the spec: the package \<open>striptags\<close> is not part of the sources, and the
  specification says of it only that it strips all markup tags. Here a tag opens at a
  less-than sign and closes at the next greater-than sign, and all of it is dropped; a
  tag that is never closed runs to the end of the text.
\<close>

fun striptags_scan :: "bool \<Rightarrow> string \<Rightarrow> string" where
  "striptags_scan in_tag [] = []"
| "striptags_scan False (c # cs) =
     (if c = CHR ''<'' then striptags_scan True cs else c # striptags_scan False cs)"
| "striptags_scan True (c # cs) =
     (if c = CHR ''>'' then striptags_scan False cs else striptags_scan True cs)"

text \<open>
  Modelled from the spec: the tag stripper that stands for the package \<open>striptags\<close>; the
  scan starts outside of any tag.
\<close>

definition striptags_markup :: "string \<Rightarrow> string" where
  "striptags_markup s = striptags_scan False s"


subsection \<open>Similarity score\<close>

text \<open>
  Modelled from the spec: the scorer is the package \<open>fast-dice-coefficient\<close>, which is not
  part of the sources. The specification asks for a bigram (Dice) coefficient in the
  unit interval that gives 1 for two equal texts (also for two empty ones) and 0 when
  exactly one text is empty: twice the number of shared neighbouring character pairs,
  counted with multiplicity, over the number of pairs of both texts. A text of fewer than
  two characters has no pair and shares nothing with a different text.
\<close>

fun bigrams :: "string \<Rightarrow> (char \<times> char) list" where
  "bigrams (a # b # cs) = (a, b) # bigrams (b # cs)"
| "bigrams cs = []"

text \<open>
  Modelled from the spec: the number of pairs two texts share, where a pair that occurs
  several times is counted as often as it occurs in both (the package is not part of the
  sources).
\<close>

fun shared :: "'a list \<Rightarrow> 'a list \<Rightarrow> nat" where
  "shared [] ys = 0"
| "shared (x # xs) ys =
     (if x \<in> set ys then Suc (shared xs (remove1 x ys)) else shared xs ys)"

text \<open>
  Modelled from the spec: the coefficient of the scorer \<open>fast-dice-coefficient\<close>, which is
  not part of the sources, with the conventions of the specification for equal and for
  empty texts.
\<close>

definition score :: "string \<Rightarrow> string \<Rightarrow> real" where
  "score a b =
     (if a = b then 1
      else if length a < 2 \<or> length b < 2 then 0
      else 2 * real (shared (bigrams a) (bigrams b))
             / real (length (bigrams a) + length (bigrams b)))"

subsection \<open>Promises\<close>

text \<open>
  A promise is described by the moment at which it settles and by how it settles;
  \<open>None\<close> is a promise that never settles. Two promises that settle at the same moment
  run their reactions in the order in which the reactions were registered.
\<close>

datatype 'a settled = Resolved 'a | Rejected

type_synonym 'a promise = "(nat \<times> 'a settled) option"

text \<open>\<open>Promise.race\<close> of two promises: the second wins only when it settles strictly earlier.\<close>

fun earlier :: "'a promise \<Rightarrow> 'a promise \<Rightarrow> 'a promise" where
  "earlier None q = q"
| "earlier (Some p) None = Some p"
| "earlier (Some (t, x)) (Some (u, y)) = (if u < t then Some (u, y) else Some (t, x))"

definition promise_race :: "'a promise list \<Rightarrow> 'a promise" where
  "promise_race ps = foldr earlier ps None"

text \<open>
  \<open>Promise.all\<close>: rejected as soon as the first member is rejected, otherwise resolved
  with all values once the last member is resolved.
\<close>

fun rejections :: "'a promise list \<Rightarrow> nat list" where
  "rejections [] = []"
| "rejections (Some (t, Rejected) # ps) = t # rejections ps"
| "rejections (p # ps) = rejections ps"

fun resolutions :: "'a promise list \<Rightarrow> (nat \<times> 'a) list option" where
  "resolutions [] = Some []"
| "resolutions (Some (t, Resolved v) # ps) = map_option (Cons (t, v)) (resolutions ps)"
| "resolutions (p # ps) = None"

definition promise_all :: "'a promise list \<Rightarrow> 'a list promise" where
  "promise_all ps =
     (case rejections ps of
        t # ts \<Rightarrow> Some (fold min ts t, Rejected)
      | [] \<Rightarrow>
          (case resolutions ps of
             None \<Rightarrow> None
           | Some tvs \<Rightarrow> Some (fold max (map fst tvs) 0, Resolved (map snd tvs))))"

text \<open>\<open>p.then(f)\<close> for a function \<open>f\<close> that neither throws nor returns a promise.\<close>

fun promise_then :: "('a \<Rightarrow> 'b) \<Rightarrow> 'a promise \<Rightarrow> 'b promise" where
  "promise_then f None = None"
| "promise_then f (Some (t, Resolved v)) = Some (t, Resolved (f v))"
| "promise_then f (Some (t, Rejected)) = Some (t, Rejected)"

text \<open>
  The promise built for every member in \<open>getfirstResolvedPromise\<close>: it resolves with
  \<open>true\<close> when the member resolves with \<open>true\<close>, is rejected when the member is rejected,
  and never settles when the member resolves with \<open>false\<close>.
\<close>

fun first_true :: "bool promise \<Rightarrow> bool promise" where
  "first_true None = None"
| "first_true (Some (t, Resolved v)) = (if v then Some (t, Resolved True) else None)"
| "first_true (Some (t, Rejected)) = Some (t, Rejected)"

definition getfirstResolvedPromise :: "bool promise list \<Rightarrow> bool promise" where
  "getfirstResolvedPromise promises =
     (let newPromises = map first_true promises
      in promise_race (newPromises @ [promise_then (\<lambda>_. False) (promise_all promises)]))"

subsection \<open>Values read from the host\<close>

text \<open>
  An identity is a JSON number in the answers of the service and the string \<open>"-1"\<close> for a
  work item that was never saved; \<open>!==\<close> tells a number from a string.
\<close>

datatype js_id = IdNumber int | IdString string

text \<open>What \<open>if (x)\<close> accepts: a text that is present and not empty, an identity that is
  neither the number 0 nor the empty string.\<close>

definition truthy :: "string option \<Rightarrow> bool" where
  "truthy s = (s \<noteq> None \<and> s \<noteq> Some [])"

fun truthy_id :: "js_id option \<Rightarrow> bool" where
  "truthy_id None = False"
| "truthy_id (Some (IdNumber n)) = (n \<noteq> 0)"
| "truthy_id (Some (IdString s)) = (s \<noteq> [])"

subsection \<open>Stored thresholds\<close>

text \<open>
  The extension data manager: a store of numbers by key. \<open>getValue\<close> gives \<open>undefined\<close>
  for a key without a value, \<open>setValue\<close> writes and gives back what it wrote.
\<close>

type_synonym settings = "string \<rightharpoonup> real"

definition getValue :: "settings \<Rightarrow> string \<Rightarrow> real option" where
  "getValue store key = store key"

definition setValue :: "settings \<Rightarrow> string \<Rightarrow> real \<Rightarrow> real \<times> settings" where
  "setValue store key v = (v, store(key \<mapsto> v))"

text \<open>\<open>!x\<close> for a number that may be absent: absent or zero.\<close>

fun falsy_number :: "real option \<Rightarrow> bool" where
  "falsy_number None = True"
| "falsy_number (Some v) = (v = 0)"

definition getTitleSimilarityIndex :: "settings \<Rightarrow> real \<times> settings" where
  "getTitleSimilarityIndex store =
     (let titleSimilarityIndex = getValue store ''TitleSimilarityIndex''
      in if falsy_number titleSimilarityIndex
         then setValue store ''TitleSimilarityIndex'' 0.95
         else (the titleSimilarityIndex, store))"

definition getDescriptionSimilarityIndex :: "settings \<Rightarrow> real \<times> settings" where
  "getDescriptionSimilarityIndex store =
     (let descriptionSimilarityIndex = getValue store ''DescriptionSimilarityIndex''
      in if falsy_number descriptionSimilarityIndex
         then setValue store ''DescriptionSimilarityIndex'' 0.85
         else (the descriptionSimilarityIndex, store))"

subsection \<open>Fetching a chunk\<close>

record workitem =
  wi_id :: js_id
  wi_title :: "string option"
  wi_description :: "string option"

text \<open>
  The answer to one request: its status and, when the body is the expected JSON, the
  work items of its \<open>value\<close> field.
\<close>

record response =
  status :: nat
  json_value :: "workitem list option"

datatype attempt = NetworkError | Reply response

record retry_options =
  retries :: nat
  retryDelay :: "nat \<Rightarrow> nat"
  retryOn :: "nat \<Rightarrow> attempt \<Rightarrow> bool"

definition statusCodes :: "nat list" where
  "statusCodes = [503, 504]"

text \<open>
  The field \<open>_options\<close>. \<open>retryOn\<close> gives \<open>true\<close> for a network error and for the two
  status codes and \<open>undefined\<close>, which counts as no, otherwise.
\<close>

definition options :: retry_options where
  "options =
     \<lparr> retries = 3,
       retryDelay = (\<lambda>attempt. 2 ^ attempt * 1000),
       retryOn = (\<lambda>attempt a.
          case a of NetworkError \<Rightarrow> True | Reply r \<Rightarrow> status r \<in> set statusCodes) \<rparr>"

text \<open>
  Modelled from the spec: the retrying fetch is built by the package \<open>fetch-retry\<close>, which
  is not part of the sources. By the specification an attempt that \<open>retryOn\<close> accepts is
  repeated after the delay \<open>retryDelay\<close> gives for it, at most \<open>retries\<close> times; the
  attempt that is not repeated is the outcome. The network is the function that gives
  the outcome of each attempt; the result carries the delays that were waited.
\<close>

fun fetch_retry_from :: "retry_options \<Rightarrow> (nat \<Rightarrow> attempt) \<Rightarrow> nat \<Rightarrow> nat \<Rightarrow> attempt \<times> nat list" where
  "fetch_retry_from opts net 0 attempt = (net attempt, [])"
| "fetch_retry_from opts net (Suc left) attempt =
     (if retryOn opts attempt (net attempt)
      then (let (final, delays) = fetch_retry_from opts net left (Suc attempt)
            in (final, retryDelay opts attempt # delays))
      else (net attempt, []))"

text \<open>
  Modelled from the spec: the fetch the package \<open>fetch-retry\<close> builds from the options;
  it starts at attempt 0 with all repetitions left.
\<close>

definition fetch_retry :: "retry_options \<Rightarrow> (nat \<Rightarrow> attempt) \<Rightarrow> attempt \<times> nat list" where
  "fetch_retry opts net = fetch_retry_from opts net (retries opts) 0"

subsection \<open>Evaluating a chunk\<close>

text \<open>
  \<open>Array.prototype.every\<close> with a callback that records a match and stops there: the
  result says whether an element matched and lists the elements the callback was
  called on.
\<close>

fun every_until :: "('a \<Rightarrow> bool) \<Rightarrow> 'a list \<Rightarrow> bool \<times> 'a list" where
  "every_until matches [] = (False, [])"
| "every_until matches (w # ws) =
     (if matches w then (True, [w])
      else (let (found, visited) = every_until matches ws in (found, w # visited)))"

record chunk_evaluation =
  verdict :: "bool settled"
  scored_titles :: "workitem list"
  scored_descriptions :: "workitem list"

text \<open>
  The callback of \<open>validateWorkItemChunk\<close> on the outcome of the fetch. The scorer
  \<open>dice\<close> and \<open>striptags\<close> are the external packages. Next to the verdict, the result
  lists the work items whose title and whose description were scored.
\<close>

definition validateWorkItemChunk ::
  "(string \<Rightarrow> string \<Rightarrow> real) \<Rightarrow> (string \<Rightarrow> string) \<Rightarrow> js_id \<Rightarrow> string \<Rightarrow> string
    \<Rightarrow> real \<Rightarrow> real \<Rightarrow> attempt \<Rightarrow> chunk_evaluation" where
  "validateWorkItemChunk dice striptags currentWorkItemId currentWorkItemTitle
      currentWorkItemDescription titleSimilarityIndex descriptionSimilarityIndex fetched =
     (case fetched of
        NetworkError \<Rightarrow>
          \<lparr> verdict = Rejected, scored_titles = [], scored_descriptions = [] \<rparr>
      | Reply response \<Rightarrow>
          if 200 \<le> status response \<and> status response < 300
          then (case json_value response of
                  None \<Rightarrow> \<lparr> verdict = Rejected, scored_titles = [], scored_descriptions = [] \<rparr>
                | Some workitems \<Rightarrow>
                    (let filtered_workitems =
                           filter (\<lambda>workitem. wi_id workitem \<noteq> currentWorkItemId) workitems;
                         (duplicate, titles) =
                           (if currentWorkItemTitle \<noteq> []
                            then every_until
                                   (\<lambda>workitem. titleSimilarityIndex
                                      \<le> dice currentWorkItemTitle
                                           (normalizeString striptags (wi_title workitem)))
                                   filtered_workitems
                            else (False, []));
                         (duplicate, descriptions) =
                           (if \<not> duplicate \<and> currentWorkItemDescription \<noteq> []
                            then every_until
                                   (\<lambda>workitem. descriptionSimilarityIndex
                                      \<le> dice currentWorkItemDescription
                                           (normalizeString striptags (wi_description workitem)))
                                   filtered_workitems
                            else (duplicate, []))
                     in \<lparr> verdict = Resolved duplicate, scored_titles = titles,
                          scored_descriptions = descriptions \<rparr>))
          else \<lparr> verdict = Resolved False, scored_titles = [], scored_descriptions = [] \<rparr>)"

subsection \<open>The observer and its host\<close>

text \<open>
  What the host answers during one detection pass: the live field values of the form,
  the invalid fields it reports, the result of the query (\<open>None\<close> when the query fails)
  and, for the batch request of every chunk, the outcome and the duration of each
  attempt.
\<close>

record host =
  field_title :: "string option"
  field_description :: "string option"
  field_id :: "js_id option"
  field_type :: string
  invalid_fields :: "string list"
  queryByWiql :: "string \<Rightarrow> js_id list option"
  network :: "js_id list \<Rightarrow> nat \<Rightarrow> attempt"
  latency :: "js_id list \<Rightarrow> nat \<Rightarrow> nat"

datatype form_call = SetError string | ClearError

text \<open>
  What the observer changes: the handle kept in \<open>_timeout\<close>, the timers that are set and
  have not fired (each with the title and the description its callback captured), the
  stored thresholds, and the calls made on the error state of the form.
\<close>

record observer =
  timeout :: "nat option"
  timers :: "(nat \<times> string option \<times> string option) list"
  next_timer :: nat
  store :: settings
  form_calls :: "form_call list"

datatype pass_result =
    NothingToValidate
  | PassRejected
  | PassPending
  | SkippedInvalidFields
  | Verdict bool

definition wiqlQuery :: "string \<Rightarrow> string" where
  "wiqlQuery type =
     ''SELECT [System.Id] FROM WorkItems WHERE [System.WorkItemType] = '' @ [CHR 0x27] @ type
       @ [CHR 0x27] @ '' AND [State] <> '' @ [CHR 0x27] @ ''Closed'' @ [CHR 0x27]
       @ '' ORDER BY [System.CreatedDate] DESC''"

definition duplicate_message :: string where
  "duplicate_message = ''A duplicate work item exists with similar title and/or description.''"

text \<open>
  The promise \<open>validateWorkItemChunk\<close> returns for one chunk: it settles when the last
  attempt of the fetch has answered, after the attempts and the delays between them.
\<close>

definition chunk_promise ::
  "(string \<Rightarrow> string \<Rightarrow> real) \<Rightarrow> (string \<Rightarrow> string) \<Rightarrow> host \<Rightarrow> js_id \<Rightarrow> string \<Rightarrow> string
    \<Rightarrow> real \<Rightarrow> real \<Rightarrow> js_id list \<Rightarrow> bool promise" where
  "chunk_promise dice striptags h currentWorkItemId currentWorkItemTitle
      currentWorkItemDescription titleSimilarityIndex descriptionSimilarityIndex workItemsChunk =
     (let (fetched, delays) = fetch_retry options (network h workItemsChunk);
          settles = sum_list (map (latency h workItemsChunk) [0..<Suc (length delays)])
                      + sum_list delays
      in Some (settles,
           verdict (validateWorkItemChunk dice striptags currentWorkItemId currentWorkItemTitle
             currentWorkItemDescription titleSimilarityIndex descriptionSimilarityIndex fetched)))"

text \<open>
  The first two statements of \<open>validateWorkItem\<close>: a title or description that was not
  supplied is read from the form.
\<close>

definition current_value :: "string option \<Rightarrow> string option \<Rightarrow> string option" where
  "current_value supplied live = (if \<not> truthy supplied then live else supplied)"

text \<open>
  The last statements of \<open>validateWorkItem\<close>, after the aggregate has resolved: the
  invalid fields are read, and the error of the form is set or cleared only when there
  are none.
\<close>

definition report_verdict :: "host \<Rightarrow> bool \<Rightarrow> observer \<Rightarrow> pass_result \<times> observer" where
  "report_verdict h duplicate this =
     (if length (invalid_fields h) > 0 then (SkippedInvalidFields, this)
      else if duplicate
      then (Verdict True, this\<lparr>form_calls := form_calls this @ [SetError duplicate_message]\<rparr>)
      else (Verdict False, this\<lparr>form_calls := form_calls this @ [ClearError]\<rparr>))"

definition validateWorkItem ::
  "(string \<Rightarrow> string \<Rightarrow> real) \<Rightarrow> (string \<Rightarrow> string) \<Rightarrow> host \<Rightarrow> string option \<Rightarrow> string option
    \<Rightarrow> observer \<Rightarrow> pass_result \<times> observer" where
  "validateWorkItem dice striptags h title0 description0 this =
     (let title = current_value title0 (field_title h);
          description = current_value description0 (field_description h)
      in if \<not> truthy title \<and> \<not> truthy description then (NothingToValidate, this)
         else
          (let (titleSimilarityIndex, store1) = getTitleSimilarityIndex (store this);
               (descriptionSimilarityIndex, store2) = getDescriptionSimilarityIndex store1;
               this = this\<lparr>store := store2\<rparr>;
               id = (if truthy_id (field_id h) then the (field_id h) else IdString ''-1'')
           in case queryByWiql h (wiqlQuery (field_type h)) of
                None \<Rightarrow> (PassRejected, this)
              | Some workItems \<Rightarrow>
                 (let promises =
                        map (chunk_promise dice striptags h id (normalizeString striptags title)
                               (normalizeString striptags description)
                               titleSimilarityIndex descriptionSimilarityIndex)
                            (chunk_items workItems)
                  in case getfirstResolvedPromise promises of
                       None \<Rightarrow> (PassPending, this)
                     | Some (t, Rejected) \<Rightarrow> (PassRejected, this)
                     | Some (t, Resolved duplicate) \<Rightarrow> report_verdict h duplicate this)))"

text \<open>
  \<open>onFieldChanged\<close>; the two arguments are the entries of \<open>changedFields\<close> for the title
  and for the description. \<open>clearTimeout\<close> drops the timer of the kept handle when that
  timer has not fired.
\<close>

definition clearTimeout :: "nat \<Rightarrow> observer \<Rightarrow> observer" where
  "clearTimeout handle this = this\<lparr>timers := filter (\<lambda>timer. fst timer \<noteq> handle) (timers this)\<rparr>"

definition setTimeout :: "string option \<Rightarrow> string option \<Rightarrow> observer \<Rightarrow> observer" where
  "setTimeout title description this =
     this\<lparr>timers := timers this @ [(next_timer this, title, description)],
          timeout := Some (next_timer this),
          next_timer := Suc (next_timer this)\<rparr>"

definition onFieldChanged :: "string option \<Rightarrow> string option \<Rightarrow> observer \<Rightarrow> observer" where
  "onFieldChanged title description this =
     (if truthy title \<or> truthy description
      then setTimeout title description
             (case timeout this of None \<Rightarrow> this | Some handle \<Rightarrow> clearTimeout handle this)
      else this)"

text \<open>The callback of a timer, run when its 2000 milliseconds have passed.\<close>

definition timer_fires ::
  "(string \<Rightarrow> string \<Rightarrow> real) \<Rightarrow> (string \<Rightarrow> string) \<Rightarrow> host \<Rightarrow> nat \<Rightarrow> observer \<Rightarrow> observer" where
  "timer_fires dice striptags h handle this =
     (case find (\<lambda>timer. fst timer = handle) (timers this) of
        None \<Rightarrow> this
      | Some (_, title, description) \<Rightarrow>
          snd (validateWorkItem dice striptags h title description
                 (this\<lparr>timers := filter (\<lambda>timer. fst timer \<noteq> handle) (timers this)\<rparr>)))"

subsection \<open>Sample values\<close>

text \<open>A successful answer with four work items, and a host that gives it for every chunk.\<close>

definition sample_response :: response where
  "sample_response =
     \<lparr> status = 200,
       json_value = Some
         [\<lparr> wi_id = IdNumber 7, wi_title = Some ''foo bar'', wi_description = None \<rparr>,
          \<lparr> wi_id = IdNumber 8, wi_title = Some ''foo baz'',
            wi_description = Some ''<p>lorem  ipsum</p>'' \<rparr>,
          \<lparr> wi_id = IdNumber 9, wi_title = Some ''foo, bar'', wi_description = None \<rparr>,
          \<lparr> wi_id = IdNumber 10, wi_title = Some ''x'', wi_description = Some ''y'' \<rparr>] \<rparr>"

definition sample_host :: host where
  "sample_host =
     \<lparr> field_title = Some ''Foo, Bar'',
       field_description = None,
       field_id = Some (IdNumber 7),
       field_type = ''Bug'',
       invalid_fields = [''Assigned To''],
       queryByWiql = (\<lambda>query. Some [IdNumber 7, IdNumber 8, IdNumber 9, IdNumber 10]),
       network = (\<lambda>ids attempt. Reply sample_response),
       latency = (\<lambda>ids attempt. 120) \<rparr>"

text \<open>An observer with one timer set and an error set on the form by an earlier pass.\<close>

definition sample_observer :: observer where
  "sample_observer =
     \<lparr> timeout = Some 4,
       timers = [(4, Some ''foo bar'', None)],
       next_timer = 5,
       store = Map.empty,
       form_calls = [SetError duplicate_message] \<rparr>"


section \<open>Properties\<close>

subsection \<open>Chunking\<close>

lemma chunk_loop_concat:
  "concat (chunk_loop xs i acc) = concat acc @ drop i xs"
proof (induction xs i acc rule: chunk_loop.induct)
  case (1 xs i acc)
  show ?case
  proof (cases "i < length xs")
    case True
    have "take chunk (drop i xs) @ drop (i + chunk) xs = drop i xs"
      by (metis add.commute append_take_drop_id drop_drop)
    with True "1" show ?thesis
      by (subst chunk_loop.simps) (simp add: slice_def)
  next
    case False
    then show ?thesis by (subst chunk_loop.simps) simp
  qed
qed

lemma chunk_loop_bounds:
  "(\<forall>c \<in> set acc. c \<noteq> [] \<and> length c \<le> chunk)
   \<Longrightarrow> (\<forall>c \<in> set (chunk_loop xs i acc). c \<noteq> [] \<and> length c \<le> chunk)"
proof (induction xs i acc rule: chunk_loop.induct)
  case (1 xs i acc)
  show ?case
  proof (cases "i < length xs")
    case True
    have "\<forall>c \<in> set (acc @ [slice xs i (i + chunk)]). c \<noteq> [] \<and> length c \<le> chunk"
      using True "1.prems" by (auto simp: slice_def chunk_def)
    with True "1.IH" show ?thesis by (subst chunk_loop.simps) simp
  next
    case False
    with "1.prems" show ?thesis by (subst chunk_loop.simps) simp
  qed
qed

lemma chunk_loop_450:
  assumes "length xs = 450"
  shows "map length (chunk_loop xs 0 []) = [200, 200, 50]"
proof -
  have "chunk_loop xs 0 [] = chunk_loop xs 200 [slice xs 0 200]"
    using assms by (subst chunk_loop.simps) (simp add: chunk_def)
  also have "\<dots> = chunk_loop xs 400 [slice xs 0 200, slice xs 200 400]"
    using assms by (subst chunk_loop.simps) (simp add: chunk_def)
  also have "\<dots> = chunk_loop xs 600 [slice xs 0 200, slice xs 200 400, slice xs 400 600]"
    using assms by (subst chunk_loop.simps) (simp add: chunk_def)
  also have "\<dots> = [slice xs 0 200, slice xs 200 400, slice xs 400 600]"
    using assms by (subst chunk_loop.simps) simp
  finally show ?thesis
    using assms by (simp add: slice_def)
qed

text \<open>
  Claim C6. The chunking loop cuts the candidate list into chunks of at most 200
  candidates, none of them empty, whose concatenation is the candidate list itself:
  every candidate lies in exactly one chunk, in its original position. A list of 450
  candidates gives three chunks, of 200, 200 and 50 candidates.
\<close>

theorem chunk_items_partition:
  "concat (chunk_items xs) = xs
   \<and> (\<forall>c \<in> set (chunk_items xs). c \<noteq> [] \<and> length c \<le> 200)
   \<and> (length xs = 450 \<longrightarrow> map length (chunk_items xs) = [200, 200, 50])"
proof -
  have "concat (chunk_items xs) = xs"
    by (simp add: chunk_items_def chunk_loop_concat)
  moreover have "\<forall>c \<in> set (chunk_items xs). c \<noteq> [] \<and> length c \<le> 200"
    using chunk_loop_bounds [of "[]" xs 0] by (simp add: chunk_items_def chunk_def)
  moreover have "length xs = 450 \<longrightarrow> map length (chunk_items xs) = [200, 200, 50]"
    by (simp add: chunk_items_def chunk_loop_450)
  ultimately show ?thesis by simp
qed

theorem chunk_items_partition_witness:
  "length (replicate 450 (7::nat)) = 450
   \<and> map length (chunk_items (replicate 450 (7::nat))) = [200, 200, 50]
   \<and> concat (chunk_items (replicate 450 (7::nat))) = replicate 450 7"
  using chunk_items_partition [of "replicate 450 (7::nat)"] by simp

subsection \<open>Text normalisation\<close>


























lemma char_of_codes [simp]:
  "char_of (98::nat) = CHR ''b''" "char_of (102::nat) = CHR ''f''"
  by code_simp+

lemma normalizeString_example:
  "normalizeString striptags_markup (Some ''<b>Foo-Bar</b>  Baz'') = ''foobar baz''"
  by (simp add: normalizeString_def striptags_markup_def remove_punctuation_def punctuation_def trim_def toLowerCase_def toLowerCase_char_def is_space_def)




















lemma char_of_code_a [simp]: "char_of (97::nat) = CHR ''a''"
  by code_simp



subsection \<open>Similarity score\<close>

lemma shared_mset: "shared xs ys = size (mset xs \<inter># mset ys)"
proof (induction xs arbitrary: ys)
  case Nil
  show ?case by simp
next
  case (Cons x xs)
  show ?case
  proof (cases "x \<in> set ys")
    case True
    then have "x \<in># mset ys" by simp
    then have "add_mset x (mset xs) \<inter># mset ys = add_mset x (mset xs \<inter># (mset ys - {#x#}))"
      by (rule inter_add_left2)
    with True Cons.IH [of "remove1 x ys"] show ?thesis by simp
  next
    case False
    then have "\<not> x \<in># mset ys" by simp
    then have "add_mset x (mset xs) \<inter># mset ys = mset xs \<inter># mset ys"
      by (rule inter_add_left1)
    with False Cons.IH [of ys] show ?thesis by simp
  qed
qed

lemma shared_commute: "shared xs ys = shared ys xs"
  by (simp only: shared_mset subset_mset.inf_commute [of "mset xs"])

lemma shared_le_left: "shared xs ys \<le> length xs"
proof -
  have "size (mset xs \<inter># mset ys) \<le> size (mset xs)"
    by (rule size_mset_mono) simp
  then show ?thesis by (simp add: shared_mset)
qed

lemma shared_le_right: "shared xs ys \<le> length ys"
  using shared_le_left [of ys xs] by (simp add: shared_commute)

lemma dice_ratio_bounds:
  "0 \<le> 2 * real (shared xs ys) / real (length xs + length ys)
   \<and> 2 * real (shared xs ys) / real (length xs + length ys) \<le> 1"
proof -
  have "2 * shared xs ys \<le> length xs + length ys"
    using shared_le_left [of xs ys] shared_le_right [of xs ys] by linarith
  then have "2 * real (shared xs ys) \<le> real (length xs + length ys)"
    by (metis of_nat_le_iff of_nat_mult of_nat_numeral)
  then have "2 * real (shared xs ys) / real (length xs + length ys) \<le> 1"
    by (cases "length xs + length ys = 0") (simp_all add: divide_le_eq_1 del: of_nat_add)
  then show ?thesis by simp
qed

text \<open>
  Claim C8. The similarity score lies between 0 and 1, does not depend on the order of
  its two arguments, and is 1 for a text compared with itself.
\<close>

theorem score_contract:
  "0 \<le> score a b \<and> score a b \<le> 1 \<and> score a b = score b a \<and> score a a = 1"
proof -
  have bounds: "0 \<le> score a b \<and> score a b \<le> 1"
    using dice_ratio_bounds [of "bigrams a" "bigrams b"] by (simp add: score_def)
  have sym: "score a b = score b a"
    by (auto simp: score_def shared_commute [of "bigrams a"] add.commute)
  have refl: "score a a = 1"
    by (simp add: score_def)
  from bounds sym refl show ?thesis by simp
qed

subsection \<open>The sample values\<close>

lemma sample_normalized:
  "normalizeString striptags_markup (Some ''foo bar'') = ''foo bar''"
  "normalizeString striptags_markup (Some ''foo baz'') = ''foo baz''"
  "normalizeString striptags_markup (Some ''foo, bar'') = ''foo bar''"
  "normalizeString striptags_markup (Some ''x'') = ''x''"
  "normalizeString striptags_markup (Some ''y'') = ''y''"
  "normalizeString striptags_markup (Some ''Foo, Bar'') = ''foo bar''"
  "normalizeString striptags_markup (Some ''...'') = []"
  "normalizeString striptags_markup (Some ''other'') = ''other''"
  "normalizeString striptags_markup (Some ''<p>lorem  ipsum</p>'') = ''lorem ipsum''"
  "normalizeString striptags_markup None = []"
  by (simp_all add: normalizeString_def striptags_markup_def remove_punctuation_def
      punctuation_def trim_def toLowerCase_def toLowerCase_char_def is_space_def)

lemma sample_scores:
  "score ''foo bar'' ''foo baz'' = 5 / 6"
  "score ''foo bar'' ''foo bar'' = 1"
  "score ''foo bar'' ''x'' = 0"
  "score ''qq'' ''foo baz'' = 0"
  "score ''qq'' ''foo bar'' = 0"
  "score ''qq'' ''x'' = 0"
  "score ''lorem ipsum'' ''lorem ipsum'' = 1"
  "score ''something'' ''other'' = 1 / 6"
  "score [] [] = 1"
  by (simp_all add: score_def)



lemma sample_chunk_by_title:
  "validateWorkItemChunk score striptags_markup (IdNumber 7) ''foo bar'' [] 0.95 0.85
       (Reply sample_response)
   = \<lparr> verdict = Resolved True,
       scored_titles =
         [\<lparr> wi_id = IdNumber 8, wi_title = Some ''foo baz'',
            wi_description = Some ''<p>lorem  ipsum</p>'' \<rparr>,
          \<lparr> wi_id = IdNumber 9, wi_title = Some ''foo, bar'', wi_description = None \<rparr>],
       scored_descriptions = [] \<rparr>"
  by (simp add: validateWorkItemChunk_def sample_response_def sample_normalized sample_scores)

lemma sample_chunks:
  "chunk_items [IdNumber 7, IdNumber 8, IdNumber 9, IdNumber 10]
   = [[IdNumber 7, IdNumber 8, IdNumber 9, IdNumber 10]]"
  by (simp add: chunk_items_def chunk_loop.simps chunk_def slice_def)

lemma sample_fetch: "fetch_retry options (\<lambda>attempt. Reply sample_response) = (Reply sample_response, [])"
  by (simp add: fetch_retry_def options_def numeral_3_eq_3 sample_response_def statusCodes_def)


lemma sample_pass_without_gate:
  "fst (validateWorkItem score striptags_markup (sample_host\<lparr>invalid_fields := []\<rparr>) None None
          sample_observer) = Verdict True"
proof -
  have v: "verdict (validateWorkItemChunk score striptags_markup (IdNumber 7) ''foo bar'' []
             0.95 0.85 (Reply sample_response)) = Resolved True"
    unfolding sample_chunk_by_title by simp
  have "chunk_promise score striptags_markup (sample_host\<lparr>invalid_fields := []\<rparr>) (IdNumber 7)
          ''foo bar'' [] 0.95 0.85 [IdNumber 7, IdNumber 8, IdNumber 9, IdNumber 10]
        = Some (120, Resolved True)"
    unfolding chunk_promise_def
    using v by (simp add: sample_host_def sample_fetch)
  then show ?thesis
    by (simp add: validateWorkItem_def sample_host_def sample_observer_def current_value_def
        truthy_def getTitleSimilarityIndex_def getDescriptionSimilarityIndex_def getValue_def
        setValue_def sample_chunks sample_normalized getfirstResolvedPromise_def
        promise_race_def promise_all_def report_verdict_def)
qed

subsection \<open>The aggregator\<close>

lemma earlier_None_right: "earlier p None = p"
  by (cases p) auto

lemma earlier_assoc: "earlier p (earlier q r) = earlier (earlier p q) r"
  by (cases p; cases q; cases r) auto

lemma promise_race_Cons: "promise_race (q # qs) = earlier q (promise_race qs)"
  by (simp add: promise_race_def)

lemma promise_race_snoc: "promise_race (qs @ [q]) = earlier (promise_race qs) q"
proof (induction qs)
  case Nil
  show ?case by (simp add: promise_race_def earlier_None_right)
next
  case (Cons a qs)
  then show ?case by (simp add: promise_race_Cons earlier_assoc)
qed

lemma promise_race_None: "(promise_race qs = None) = (\<forall>q \<in> set qs. q = None)"
proof (induction qs)
  case Nil
  show ?case by (simp add: promise_race_def)
next
  case (Cons a qs)
  then show ?case
    by (cases a; cases "promise_race qs") (auto simp: promise_race_Cons split: if_splits)
qed

lemma promise_race_Some:
  "promise_race qs = Some (t, x)
   \<Longrightarrow> Some (t, x) \<in> set qs \<and> (\<forall>u y. Some (u, y) \<in> set qs \<longrightarrow> t \<le> u)"
proof (induction qs arbitrary: t x)
  case Nil
  then show ?case by (simp add: promise_race_def)
next
  case (Cons a qs)
  show ?case
  proof (cases "promise_race qs")
    case None
    then have "\<forall>q \<in> set qs. q = None" by (simp add: promise_race_None)
    moreover from None Cons.prems have "a = Some (t, x)"
      by (simp add: promise_race_Cons earlier_None_right)
    ultimately show ?thesis by auto
  next
    case (Some r)
    obtain u y where r: "r = (u, y)" by (cases r)
    with Some Cons.IH [of u y]
    have IH: "Some (u, y) \<in> set qs" "\<forall>u' y'. Some (u', y') \<in> set qs \<longrightarrow> u \<le> u'"
      by auto
    show ?thesis
    proof (cases a)
      case None
      with Some r Cons.prems have "t = u" "x = y" by (auto simp: promise_race_Cons)
      with IH None show ?thesis by auto
    next
      case (Some s)
      obtain v z where s: "s = (v, z)" by (cases s)
      show ?thesis
      proof (cases "u < v")
        case True
        with Some s r \<open>promise_race qs = Some r\<close> Cons.prems have "t = u" "x = y"
          by (auto simp: promise_race_Cons)
        with IH Some s True show ?thesis by auto
      next
        case False
        with Some s r \<open>promise_race qs = Some r\<close> Cons.prems have "t = v" "x = z"
          by (auto simp: promise_race_Cons)
        with IH Some s False show ?thesis by fastforce
      qed
    qed
  qed
qed


lemma first_true_Some:
  "Some (t, x) \<in> set (map first_true ps)
   \<Longrightarrow> (x = Resolved True \<and> Some (t, Resolved True) \<in> set ps)
       \<or> (x = Rejected \<and> Some (t, Rejected) \<in> set ps)"
proof (induction ps)
  case Nil
  then show ?case by simp
next
  case (Cons p ps)
  show ?case
  proof (cases "Some (t, x) = first_true p")
    case True
    then show ?thesis
      by (cases p rule: first_true.cases) (auto split: if_splits)
  next
    case False
    with Cons show ?thesis by auto
  qed
qed

lemma first_true_True:
  "Some (t, Resolved True) \<in> set ps \<Longrightarrow> Some (t, Resolved True) \<in> set (map first_true ps)"
  by (force simp: image_iff)

lemma first_true_Rejected:
  "Some (t, Rejected) \<in> set ps \<Longrightarrow> Some (t, Rejected) \<in> set (map first_true ps)"
  by (force simp: image_iff)

lemma fold_max_ge: "z \<le> fold max ts (z::nat) \<and> (\<forall>u \<in> set ts. u \<le> fold max ts z)"
proof (induction ts arbitrary: z)
  case Nil
  show ?case by simp
next
  case (Cons a ts)
  have "max a z \<le> fold max ts (max a z)" "\<forall>u \<in> set ts. u \<le> fold max ts (max a z)"
    using Cons.IH [of "max a z"] by auto
  then show ?case by auto
qed

lemma rejections_Nil:
  "\<forall>p \<in> set ps. \<exists>t v. p = Some (t, Resolved v) \<Longrightarrow> rejections ps = []"
  by (induction ps) auto

lemma rejections_mem: "Some (t, Rejected) \<in> set ps \<Longrightarrow> rejections ps \<noteq> []"
  by (induction ps rule: rejections.induct) auto


lemma resolutions_Some:
  "\<forall>p \<in> set ps. \<exists>t v. p = Some (t, Resolved v)
   \<Longrightarrow> \<exists>tvs. resolutions ps = Some tvs \<and> (\<forall>t v. Some (t, Resolved v) \<in> set ps \<longrightarrow> t \<in> set (map fst tvs))"
proof (induction ps)
  case Nil
  show ?case by simp
next
  case (Cons p ps)
  then obtain tvs where tvs: "resolutions ps = Some tvs"
      "\<forall>t v. Some (t, Resolved v) \<in> set ps \<longrightarrow> t \<in> set (map fst tvs)"
    by auto
  from Cons.prems obtain t v where p: "p = Some (t, Resolved v)" by auto
  with tvs show ?case by auto
qed

lemma resolutions_None:
  "(resolutions ps = None) = (\<not> (\<forall>p \<in> set ps. \<exists>t v. p = Some (t, Resolved v)))"
  by (induction ps rule: resolutions.induct) auto

lemma promise_all_resolved:
  assumes "\<forall>p \<in> set ps. \<exists>t v. p = Some (t, Resolved v)"
  shows "\<exists>m vs. promise_all ps = Some (m, Resolved vs)
           \<and> (\<forall>t v. Some (t, Resolved v) \<in> set ps \<longrightarrow> t \<le> m)"
proof -
  from assms obtain tvs where tvs: "resolutions ps = Some tvs"
      "\<forall>t v. Some (t, Resolved v) \<in> set ps \<longrightarrow> t \<in> set (map fst tvs)"
    using resolutions_Some by blast
  have "promise_all ps = Some (fold max (map fst tvs) 0, Resolved (map snd tvs))"
    using assms tvs(1) by (simp add: promise_all_def rejections_Nil)
  moreover have "\<forall>t v. Some (t, Resolved v) \<in> set ps \<longrightarrow> t \<le> fold max (map fst tvs) 0"
    using tvs(2) fold_max_ge [of 0 "map fst tvs"] by blast
  ultimately show ?thesis by blast
qed

lemma promise_all_rejected:
  "Some (t, Rejected) \<in> set ps \<Longrightarrow> \<exists>m. promise_all ps = Some (m, Rejected)"
  using rejections_mem [of t ps]
  by (cases "rejections ps") (auto simp: promise_all_def)

lemma promise_all_settles:
  "\<forall>p \<in> set ps. p \<noteq> None \<Longrightarrow> promise_all ps \<noteq> None"
proof (cases "\<exists>t. Some (t, Rejected) \<in> set ps")
  case True
  then show ?thesis using promise_all_rejected by fastforce
next
  case False
  assume "\<forall>p \<in> set ps. p \<noteq> None"
  with False have "\<forall>p \<in> set ps. \<exists>t v. p = Some (t, Resolved v)"
    by (metis not_None_eq settled.exhaust surj_pair)
  then show ?thesis using promise_all_resolved by fastforce
qed


lemma aggregate_unfold:
  "getfirstResolvedPromise ps
   = earlier (promise_race (map first_true ps)) (promise_then (\<lambda>_. False) (promise_all ps))"
  by (simp add: getfirstResolvedPromise_def promise_race_snoc)

lemma aggregate_settles:
  assumes "\<forall>p \<in> set ps. p \<noteq> None"
  shows "getfirstResolvedPromise ps \<noteq> None"
proof -
  from assms obtain m x where "promise_all ps = Some (m, x)"
    using promise_all_settles by fastforce
  then obtain y where "promise_then (\<lambda>_. False) (promise_all ps) = Some (m, y)"
    by (cases x) auto
  then show ?thesis
    unfolding aggregate_unfold
    by (cases "promise_race (map first_true ps)") auto
qed

lemma aggregate_no_failure:
  assumes ok: "\<forall>p \<in> set ps. \<exists>t v. p = Some (t, Resolved v)"
  shows "\<exists>t. getfirstResolvedPromise ps = Some (t, Resolved (\<exists>u. Some (u, Resolved True) \<in> set ps))
     \<and> (if \<exists>u. Some (u, Resolved True) \<in> set ps
        then Some (t, Resolved True) \<in> set ps \<and> (\<forall>u. Some (u, Resolved True) \<in> set ps \<longrightarrow> t \<le> u)
        else (\<forall>u v. Some (u, Resolved v) \<in> set ps \<longrightarrow> u \<le> t))"
proof -
  from ok obtain m vs where m: "promise_all ps = Some (m, Resolved vs)"
      "\<forall>t v. Some (t, Resolved v) \<in> set ps \<longrightarrow> t \<le> m"
    using promise_all_resolved by blast
  then have all: "promise_then (\<lambda>_. False) (promise_all ps) = Some (m, Resolved False)"
    by simp
  show ?thesis
  proof (cases "\<exists>u. Some (u, Resolved True) \<in> set ps")
    case False
    have "promise_race (map first_true ps) = None"
      unfolding promise_race_None
    proof
      fix q assume q: "q \<in> set (map first_true ps)"
      show "q = None"
      proof (cases q)
        case None
        then show ?thesis .
      next
        case (Some r)
        obtain t x where "r = (t, x)" by (cases r)
        with Some q first_true_Some [of t x ps] False ok show ?thesis by auto
      qed
    qed
    with all have "getfirstResolvedPromise ps = Some (m, Resolved False)"
      by (simp add: aggregate_unfold)
    with False m(2) show ?thesis by auto
  next
    case True
    then obtain u where u: "Some (u, Resolved True) \<in> set ps" by blast
    then have mem: "Some (u, Resolved True) \<in> set (map first_true ps)"
      by (rule first_true_True)
    then have "promise_race (map first_true ps) \<noteq> None"
      unfolding promise_race_None by blast
    then obtain t x where r: "promise_race (map first_true ps) = Some (t, x)"
      by (cases "promise_race (map first_true ps)") auto
    note s = promise_race_Some [OF r]
    from s first_true_Some [of t x ps] ok have x: "x = Resolved True" "Some (t, Resolved True) \<in> set ps"
      by auto
    have least: "\<forall>u. Some (u, Resolved True) \<in> set ps \<longrightarrow> t \<le> u"
      using s first_true_True by blast
    from x(2) m(2) have "t \<le> m" by blast
    with r x(1) all have "getfirstResolvedPromise ps = Some (t, Resolved True)"
      by (simp add: aggregate_unfold)
    with True x(2) least show ?thesis by auto
  qed
qed

lemma aggregate_failure_first:
  assumes f: "Some (t, Rejected) \<in> set ps"
    and before: "\<forall>u. Some (u, Resolved True) \<in> set ps \<longrightarrow> t < u"
  shows "\<exists>t'. getfirstResolvedPromise ps = Some (t', Rejected)"
proof -
  from f obtain m where "promise_all ps = Some (m, Rejected)"
    using promise_all_rejected by blast
  then have all: "promise_then (\<lambda>_. False) (promise_all ps) = Some (m, Rejected)"
    by simp
  from f have mem: "Some (t, Rejected) \<in> set (map first_true ps)"
    by (rule first_true_Rejected)
  then have "promise_race (map first_true ps) \<noteq> None"
    unfolding promise_race_None by blast
  then obtain t0 x where r: "promise_race (map first_true ps) = Some (t0, x)"
    by (cases "promise_race (map first_true ps)") auto
  note s = promise_race_Some [OF r]
  from s mem have "t0 \<le> t" by blast
  with s first_true_Some [of t0 x ps] before have "x = Rejected" by fastforce
  with r all show ?thesis
    by (auto simp: aggregate_unfold)
qed


lemma fold_min_mem: "fold min ts (t::nat) \<in> set (t # ts) \<and> (\<forall>x \<in> set (t # ts). fold min ts t \<le> x)"
proof (induction ts arbitrary: t)
  case Nil
  show ?case by simp
next
  case (Cons a ts)
  define m where "m = min a t"
  have m: "m = a \<or> m = t" "m \<le> a" "m \<le> t"
    by (auto simp: m_def min_def)
  have step: "fold min (a # ts) t = fold min ts m"
    by (simp add: m_def)
  have IH: "fold min ts m \<in> set (m # ts)" "\<forall>x \<in> set (m # ts). fold min ts m \<le> x"
    using Cons.IH [of m] by blast+
  from IH(1) m(1) have "fold min ts m \<in> set (t # a # ts)" by auto
  moreover from IH(2) m(2,3) have "\<forall>x \<in> set (t # a # ts). fold min ts m \<le> x" by auto
  ultimately show ?case unfolding step by blast
qed

lemma rejections_set: "(t \<in> set (rejections ps)) = (Some (t, Rejected) \<in> set ps)"
  by (induction ps rule: rejections.induct) auto

lemma promise_all_rejected_first:
  assumes "Some (t, Rejected) \<in> set ps"
  shows "\<exists>m. promise_all ps = Some (m, Rejected) \<and> Some (m, Rejected) \<in> set ps
           \<and> (\<forall>w. Some (w, Rejected) \<in> set ps \<longrightarrow> m \<le> w)"
proof -
  from assms have "rejections ps \<noteq> []" by (rule rejections_mem)
  then obtain r rs where rs: "rejections ps = r # rs" by (cases "rejections ps") auto
  let ?m = "fold min rs r"
  have all: "promise_all ps = Some (?m, Rejected)"
    by (simp add: promise_all_def rs)
  have "?m \<in> set (rejections ps)" and "\<forall>x \<in> set (rejections ps). ?m \<le> x"
    using fold_min_mem [of rs r] rs by simp_all
  then have "Some (?m, Rejected) \<in> set ps" and "\<forall>w. Some (w, Rejected) \<in> set ps \<longrightarrow> ?m \<le> w"
    by (simp_all add: rejections_set)
  with all show ?thesis by blast
qed

lemma promise_all_cases:
  "promise_all ps = None
   \<or> (\<exists>m. promise_all ps = Some (m, Rejected) \<and> Some (m, Rejected) \<in> set ps)
   \<or> (\<exists>m vs. promise_all ps = Some (m, Resolved vs)
         \<and> (\<forall>t v. Some (t, Resolved v) \<in> set ps \<longrightarrow> t \<le> m))"
proof (cases "\<exists>t. Some (t, Rejected) \<in> set ps")
  case True
  then show ?thesis using promise_all_rejected_first by blast
next
  case False
  then have r: "rejections ps = []"
    using rejections_set [of _ ps] by (cases "rejections ps") (auto simp: list.set_intros)
  show ?thesis
  proof (cases "\<forall>p \<in> set ps. \<exists>t v. p = Some (t, Resolved v)")
    case True
    then show ?thesis using promise_all_resolved by blast
  next
    case False
    then have "resolutions ps = None" using resolutions_None [of ps] by blast
    with r show ?thesis by (simp add: promise_all_def)
  qed
qed

lemma aggregate_decided_by_race:
  assumes "\<exists>t. Some (t, Resolved True) \<in> set ps \<or> Some (t, Rejected) \<in> set ps"
  shows "getfirstResolvedPromise ps = promise_race (map first_true ps)"
proof -
  from assms obtain t x where "Some (t, x) \<in> set (map first_true ps)"
    using first_true_True first_true_Rejected by blast
  then have "promise_race (map first_true ps) \<noteq> None"
    unfolding promise_race_None by blast
  then obtain t0 x0 where r: "promise_race (map first_true ps) = Some (t0, x0)"
    by (cases "promise_race (map first_true ps)") auto
  note s = promise_race_Some [OF r]
  have mem: "Some (t0, Resolved True) \<in> set ps \<or> Some (t0, Rejected) \<in> set ps"
    using s first_true_Some [of t0 x0 ps] by blast
  have least: "\<forall>u. Some (u, Rejected) \<in> set ps \<longrightarrow> t0 \<le> u"
    using s first_true_Rejected by blast
  have "earlier (Some (t0, x0)) (promise_then (\<lambda>_. False) (promise_all ps)) = Some (t0, x0)"
  proof -
    consider (none) "promise_all ps = None"
      | (rej) m where "promise_all ps = Some (m, Rejected)" "Some (m, Rejected) \<in> set ps"
      | (res) m vs where "promise_all ps = Some (m, Resolved vs)"
          "\<forall>t v. Some (t, Resolved v) \<in> set ps \<longrightarrow> t \<le> m"
      using promise_all_cases [of ps] by (elim disjE exE conjE) auto
    then show ?thesis
    proof cases
      case none
      then show ?thesis by simp
    next
      case rej
      from rej(2) least have "t0 \<le> m" by blast
      with rej(1) show ?thesis by simp
    next
      case res
      have "\<not> (\<exists>u. Some (u, Rejected) \<in> set ps)"
      proof
        assume "\<exists>u. Some (u, Rejected) \<in> set ps"
        then obtain m' where "promise_all ps = Some (m', Rejected)"
          using promise_all_rejected by blast
        with res(1) show False by simp
      qed
      with mem have "Some (t0, Resolved True) \<in> set ps" by blast
      with res(2) have "t0 \<le> m" by blast
      with res(1) show ?thesis by simp
    qed
  qed
  with r show ?thesis by (simp add: aggregate_unfold)
qed

lemma aggregate_undecided:
  assumes "\<not> (\<exists>t. Some (t, Resolved True) \<in> set ps \<or> Some (t, Rejected) \<in> set ps)"
  shows "getfirstResolvedPromise ps = promise_then (\<lambda>_. False) (promise_all ps)"
proof -
  have "promise_race (map first_true ps) = None"
    unfolding promise_race_None
  proof
    fix q assume q: "q \<in> set (map first_true ps)"
    show "q = None"
    proof (cases q)
      case None
      then show ?thesis .
    next
      case (Some r)
      obtain t x where "r = (t, x)" by (cases r)
      with Some q first_true_Some [of t x ps] assms show ?thesis by blast
    qed
  qed
  then show ?thesis by (simp add: aggregate_unfold)
qed

lemma aggregate_true_first:
  assumes tr: "Some (u, Resolved True) \<in> set ps"
    and before: "\<forall>t. Some (t, Rejected) \<in> set ps \<longrightarrow> u < t"
  shows "\<exists>u'. getfirstResolvedPromise ps = Some (u', Resolved True)
           \<and> Some (u', Resolved True) \<in> set ps
           \<and> (\<forall>w. Some (w, Resolved True) \<in> set ps \<longrightarrow> u' \<le> w)"
proof -
  from tr have eq: "getfirstResolvedPromise ps = promise_race (map first_true ps)"
    using aggregate_decided_by_race [of ps] by blast
  from tr have mem: "Some (u, Resolved True) \<in> set (map first_true ps)"
    by (rule first_true_True)
  then have "promise_race (map first_true ps) \<noteq> None"
    unfolding promise_race_None by blast
  then obtain t0 x where r: "promise_race (map first_true ps) = Some (t0, x)"
    by (cases "promise_race (map first_true ps)") auto
  note s = promise_race_Some [OF r]
  from s mem have "t0 \<le> u" by blast
  with s first_true_Some [of t0 x ps] before
  have x: "x = Resolved True" "Some (t0, Resolved True) \<in> set ps" by fastforce+
  have "\<forall>w. Some (w, Resolved True) \<in> set ps \<longrightarrow> t0 \<le> w"
    using s first_true_True by blast
  with eq r x show ?thesis by simp
qed

lemma aggregate_failure_first_time:
  assumes f: "Some (t, Rejected) \<in> set ps"
    and before: "\<forall>u. Some (u, Resolved True) \<in> set ps \<longrightarrow> t < u"
  shows "\<exists>t'. getfirstResolvedPromise ps = Some (t', Rejected)
           \<and> Some (t', Rejected) \<in> set ps
           \<and> (\<forall>w. Some (w, Rejected) \<in> set ps \<longrightarrow> t' \<le> w)"
proof -
  from f have eq: "getfirstResolvedPromise ps = promise_race (map first_true ps)"
    using aggregate_decided_by_race [of ps] by blast
  from f have mem: "Some (t, Rejected) \<in> set (map first_true ps)"
    by (rule first_true_Rejected)
  then have "promise_race (map first_true ps) \<noteq> None"
    unfolding promise_race_None by blast
  then obtain t0 x where r: "promise_race (map first_true ps) = Some (t0, x)"
    by (cases "promise_race (map first_true ps)") auto
  note s = promise_race_Some [OF r]
  from s mem have "t0 \<le> t" by blast
  with s first_true_Some [of t0 x ps] before
  have x: "x = Rejected" "Some (t0, Rejected) \<in> set ps" by fastforce+
  have "\<forall>w. Some (w, Rejected) \<in> set ps \<longrightarrow> t0 \<le> w"
    using s first_true_Rejected by blast
  with eq r x show ?thesis by simp
qed

text \<open>
  Claim C1, as the code has it. When every evaluation settles, the aggregate settles.
  It resolves with \<open>true\<close>, at the moment of the earliest evaluation that yields \<open>true\<close>,
  when that evaluation settles before every failure; failures that come later and
  evaluations still under way change nothing. A failure is not taken for \<open>false\<close>: the
  aggregate is rejected, at the moment of the earliest failure, when that failure
  settles before every evaluation that yields \<open>true\<close>. In both cases, and when the two
  settle at the same moment, the aggregate is the first to settle of the promises built
  for the members, the member registered first winning a tie. When no evaluation yields
  \<open>true\<close> and none fails, the aggregate resolves with \<open>false\<close>, and not before the last
  evaluation has completed.
\<close>

theorem getfirstResolvedPromise_outcome:
  "((\<forall>p \<in> set ps. p \<noteq> None) \<longrightarrow> getfirstResolvedPromise ps \<noteq> None)
   \<and> ((\<forall>p \<in> set ps. \<exists>t v. p = Some (t, Resolved v)) \<longrightarrow>
        (\<exists>t. getfirstResolvedPromise ps
               = Some (t, Resolved (\<exists>u. Some (u, Resolved True) \<in> set ps))
          \<and> (if \<exists>u. Some (u, Resolved True) \<in> set ps
              then Some (t, Resolved True) \<in> set ps
                   \<and> (\<forall>u. Some (u, Resolved True) \<in> set ps \<longrightarrow> t \<le> u)
              else (\<forall>u v. Some (u, Resolved v) \<in> set ps \<longrightarrow> u \<le> t))))
   \<and> (\<forall>u. Some (u, Resolved True) \<in> set ps
            \<and> (\<forall>t. Some (t, Rejected) \<in> set ps \<longrightarrow> u < t)
          \<longrightarrow> (\<exists>u'. getfirstResolvedPromise ps = Some (u', Resolved True)
                \<and> Some (u', Resolved True) \<in> set ps
                \<and> (\<forall>w. Some (w, Resolved True) \<in> set ps \<longrightarrow> u' \<le> w)))
   \<and> (\<forall>t. Some (t, Rejected) \<in> set ps
            \<and> (\<forall>u. Some (u, Resolved True) \<in> set ps \<longrightarrow> t < u)
          \<longrightarrow> (\<exists>t'. getfirstResolvedPromise ps = Some (t', Rejected)
                \<and> Some (t', Rejected) \<in> set ps
                \<and> (\<forall>w. Some (w, Rejected) \<in> set ps \<longrightarrow> t' \<le> w)))
   \<and> ((\<exists>t. Some (t, Resolved True) \<in> set ps \<or> Some (t, Rejected) \<in> set ps)
          \<longrightarrow> getfirstResolvedPromise ps = promise_race (map first_true ps))
   \<and> (\<not> (\<exists>t. Some (t, Resolved True) \<in> set ps \<or> Some (t, Rejected) \<in> set ps)
          \<longrightarrow> getfirstResolvedPromise ps = promise_then (\<lambda>_. False) (promise_all ps))"
proof (intro conjI impI allI)
  assume "\<forall>p \<in> set ps. p \<noteq> None"
  then show "getfirstResolvedPromise ps \<noteq> None" by (rule aggregate_settles)
next
  assume "\<forall>p \<in> set ps. \<exists>t v. p = Some (t, Resolved v)"
  then show "\<exists>t. getfirstResolvedPromise ps
               = Some (t, Resolved (\<exists>u. Some (u, Resolved True) \<in> set ps))
          \<and> (if \<exists>u. Some (u, Resolved True) \<in> set ps
              then Some (t, Resolved True) \<in> set ps
                   \<and> (\<forall>u. Some (u, Resolved True) \<in> set ps \<longrightarrow> t \<le> u)
              else (\<forall>u v. Some (u, Resolved v) \<in> set ps \<longrightarrow> u \<le> t))"
    by (rule aggregate_no_failure)
next
  fix u
  assume "Some (u, Resolved True) \<in> set ps \<and> (\<forall>t. Some (t, Rejected) \<in> set ps \<longrightarrow> u < t)"
  then show "\<exists>u'. getfirstResolvedPromise ps = Some (u', Resolved True)
                \<and> Some (u', Resolved True) \<in> set ps
                \<and> (\<forall>w. Some (w, Resolved True) \<in> set ps \<longrightarrow> u' \<le> w)"
    using aggregate_true_first [of u ps] by blast
next
  fix t
  assume "Some (t, Rejected) \<in> set ps \<and> (\<forall>u. Some (u, Resolved True) \<in> set ps \<longrightarrow> t < u)"
  then show "\<exists>t'. getfirstResolvedPromise ps = Some (t', Rejected)
                \<and> Some (t', Rejected) \<in> set ps
                \<and> (\<forall>w. Some (w, Rejected) \<in> set ps \<longrightarrow> t' \<le> w)"
    using aggregate_failure_first_time [of t ps] by blast
next
  assume "\<exists>t. Some (t, Resolved True) \<in> set ps \<or> Some (t, Rejected) \<in> set ps"
  then show "getfirstResolvedPromise ps = promise_race (map first_true ps)"
    by (rule aggregate_decided_by_race)
next
  assume "\<not> (\<exists>t. Some (t, Resolved True) \<in> set ps \<or> Some (t, Rejected) \<in> set ps)"
  then show "getfirstResolvedPromise ps = promise_then (\<lambda>_. False) (promise_all ps)"
    by (rule aggregate_undecided)
qed

theorem getfirstResolvedPromise_outcome_witness:
  "getfirstResolvedPromise
      [Some (50, Resolved False), Some (10, Resolved True), Some (100, Resolved False)]
     = Some (10, Resolved True)
   \<and> getfirstResolvedPromise [Some (3, Rejected), Some (7, Resolved True)]
     = Some (3, Rejected)
   \<and> getfirstResolvedPromise [Some (3, Resolved True), Some (7, Rejected)]
     = Some (3, Resolved True)"
proof -
  let ?ps = "[Some (50::nat, Resolved False), Some (10, Resolved True), Some (100, Resolved False)]"
  let ?qs = "[Some (3::nat, Rejected), Some (7, Resolved True)]"
  let ?rs = "[Some (3::nat, Resolved True), Some (7, Rejected)]"
  have ok: "\<forall>p \<in> set ?ps. \<exists>t v. p = Some (t, Resolved v)" by auto
  have ex: "\<exists>u. Some (u, Resolved True) \<in> set ?ps" by auto
  from getfirstResolvedPromise_outcome [of ?ps] ok
  obtain t where t: "getfirstResolvedPromise ?ps
               = Some (t, Resolved (\<exists>u. Some (u, Resolved True) \<in> set ?ps))"
     "if \<exists>u. Some (u, Resolved True) \<in> set ?ps
              then Some (t, Resolved True) \<in> set ?ps
                   \<and> (\<forall>u. Some (u, Resolved True) \<in> set ?ps \<longrightarrow> t \<le> u)
              else (\<forall>u v. Some (u, Resolved v) \<in> set ?ps \<longrightarrow> u \<le> t)"
    by blast
  from t(2) ex have "Some (t, Resolved True) \<in> set ?ps" by (simp only: if_True)
  then have "t = 10" by simp
  with t(1) ex have a: "getfirstResolvedPromise ?ps = Some (10, Resolved True)" by simp
  have "Some (3, Rejected) \<in> set ?qs \<and> (\<forall>u. Some (u, Resolved True) \<in> set ?qs \<longrightarrow> 3 < u)"
    by simp
  with getfirstResolvedPromise_outcome [of ?qs]
  obtain t' where q: "getfirstResolvedPromise ?qs = Some (t', Rejected)"
      "Some (t', Rejected) \<in> set ?qs"
    by blast
  from q(2) have "t' = 3" by simp
  with q(1) have b: "getfirstResolvedPromise ?qs = Some (3, Rejected)" by simp
  have "Some (3, Resolved True) \<in> set ?rs \<and> (\<forall>t. Some (t, Rejected) \<in> set ?rs \<longrightarrow> 3 < t)"
    by simp
  with getfirstResolvedPromise_outcome [of ?rs]
  obtain u' where r: "getfirstResolvedPromise ?rs = Some (u', Resolved True)"
      "Some (u', Resolved True) \<in> set ?rs"
    by blast
  from r(2) have "u' = 3" by simp
  with r(1) have c: "getfirstResolvedPromise ?rs = Some (3, Resolved True)" by simp
  from a b c show ?thesis by simp
qed

text \<open>
  A failure that comes first rejects the aggregate although another evaluation yields
  \<open>true\<close>, and a failure next to a \<open>false\<close> rejects it instead of resolving with \<open>false\<close>.
\<close>

theorem getfirstResolvedPromise_rejects:
  "getfirstResolvedPromise [Some (3, Rejected), Some (7, Resolved True)] = Some (3, Rejected)
   \<and> getfirstResolvedPromise [Some (3, Resolved False), Some (7, Rejected)] = Some (7, Rejected)"
  by (simp add: getfirstResolvedPromise_def promise_race_def promise_all_def)

text \<open>A tie between a failure and a \<open>true\<close>: the member registered first decides.\<close>

lemma aggregate_tie:
  "getfirstResolvedPromise [Some (5, Rejected), Some (5, Resolved True)] = Some (5, Rejected)"
  "getfirstResolvedPromise [Some (5, Resolved True), Some (5, Rejected)] = Some (5, Resolved True)"
  by (simp_all add: getfirstResolvedPromise_def promise_race_def promise_all_def)

subsection \<open>Stored thresholds\<close>

lemma getTitleSimilarityIndex_kept:
  "m ''TitleSimilarityIndex'' = Some v \<Longrightarrow> v \<noteq> 0 \<Longrightarrow> getTitleSimilarityIndex m = (v, m)"
  by (simp add: getTitleSimilarityIndex_def getValue_def)

lemma getTitleSimilarityIndex_absent:
  "m ''TitleSimilarityIndex'' = None
   \<Longrightarrow> getTitleSimilarityIndex m = (0.95, m(''TitleSimilarityIndex'' \<mapsto> 0.95))"
  by (simp add: getTitleSimilarityIndex_def getValue_def setValue_def)

lemma getDescriptionSimilarityIndex_kept:
  "m ''DescriptionSimilarityIndex'' = Some v \<Longrightarrow> v \<noteq> 0
   \<Longrightarrow> getDescriptionSimilarityIndex m = (v, m)"
  by (simp add: getDescriptionSimilarityIndex_def getValue_def)

lemma getDescriptionSimilarityIndex_absent:
  "m ''DescriptionSimilarityIndex'' = None
   \<Longrightarrow> getDescriptionSimilarityIndex m
       = (0.85, m(''DescriptionSimilarityIndex'' \<mapsto> 0.85))"
  by (simp add: getDescriptionSimilarityIndex_def getValue_def setValue_def)

text \<open>
  Claim C5. A stored threshold of 0 is a value that is present, yet the read replaces it
  by the default and returns the default: the test \<open>!x\<close> holds for 0 as it does for an
  absent value.
\<close>

theorem similarity_index_zero_overwritten:
  "getTitleSimilarityIndex [''TitleSimilarityIndex'' \<mapsto> 0]
     = (0.95, [''TitleSimilarityIndex'' \<mapsto> 0.95])
   \<and> getDescriptionSimilarityIndex [''DescriptionSimilarityIndex'' \<mapsto> 0]
     = (0.85, [''DescriptionSimilarityIndex'' \<mapsto> 0.85])"
  by (simp add: getTitleSimilarityIndex_def getDescriptionSimilarityIndex_def getValue_def
      setValue_def)

subsection \<open>Evaluating a chunk\<close>



lemma every_until_subset: "set (snd (every_until m xs)) \<subseteq> set xs"
  by (induction xs) (auto simp: split_beta)

lemma chunk_evaluation_success:
  assumes "200 \<le> status r" "status r < 300" "json_value r = Some workitems"
  shows "validateWorkItemChunk dice striptags cid title description ti di (Reply r)
    = (let filtered = filter (\<lambda>w. wi_id w \<noteq> cid) workitems;
           by_title = (\<lambda>w. ti \<le> dice title (normalizeString striptags (wi_title w)));
           by_description = (\<lambda>w. di \<le> dice description (normalizeString striptags (wi_description w)));
           t = (if title \<noteq> [] then every_until by_title filtered else (False, []));
           d = (if \<not> fst t \<and> description \<noteq> [] then every_until by_description filtered
                else (fst t, []))
       in \<lparr> verdict = Resolved (fst d), scored_titles = snd t, scored_descriptions = snd d \<rparr>)"
  using assms by (simp add: validateWorkItemChunk_def Let_def split_beta)

lemma chunk_evaluation_failure:
  "\<not> (200 \<le> status r \<and> status r < 300)
   \<Longrightarrow> validateWorkItemChunk dice striptags cid title description ti di (Reply r)
       = \<lparr> verdict = Resolved False, scored_titles = [], scored_descriptions = [] \<rparr>"
  by (auto simp: validateWorkItemChunk_def)

lemma chunk_scored_subset:
  "set (scored_titles (validateWorkItemChunk dice striptags cid title description ti di fetched))
     \<union> set (scored_descriptions
              (validateWorkItemChunk dice striptags cid title description ti di fetched))
   \<subseteq> {w. wi_id w \<noteq> cid}"
proof (cases fetched)
  case NetworkError
  then show ?thesis by (simp add: validateWorkItemChunk_def)
next
  case (Reply r)
  show ?thesis
  proof (cases "200 \<le> status r \<and> status r < 300")
    case False
    with Reply show ?thesis by (simp add: chunk_evaluation_failure)
  next
    case True
    show ?thesis
    proof (cases "json_value r")
      case None
      with Reply True show ?thesis by (simp add: validateWorkItemChunk_def)
    next
      case (Some workitems)
      have "set (snd (every_until m (filter (\<lambda>w. wi_id w \<noteq> cid) workitems)))
              \<subseteq> {w. wi_id w \<noteq> cid}" for m
        using every_until_subset [of m "filter (\<lambda>w. wi_id w \<noteq> cid) workitems"] by auto
      with Reply True Some show ?thesis
        by (simp add: chunk_evaluation_success Let_def)
    qed
  qed
qed

text \<open>
  Claim C2. No work item whose identity is that of the current work item is scored,
  neither by title nor by description; a chunk that holds nothing but the current work
  item gives \<open>false\<close> without any scoring, whatever its texts are.
\<close>

theorem validateWorkItemChunk_excludes_current:
  "(\<forall>w \<in> set (scored_titles
                 (validateWorkItemChunk dice striptags cid title description ti di fetched))
           \<union> set (scored_descriptions
                 (validateWorkItemChunk dice striptags cid title description ti di fetched)).
      wi_id w \<noteq> cid)
   \<and> (\<forall>r workitems. fetched = Reply r \<and> 200 \<le> status r \<and> status r < 300
          \<and> json_value r = Some workitems \<and> (\<forall>w \<in> set workitems. wi_id w = cid)
        \<longrightarrow> validateWorkItemChunk dice striptags cid title description ti di fetched
            = \<lparr> verdict = Resolved False, scored_titles = [], scored_descriptions = [] \<rparr>)"
proof (intro conjI allI impI)
  show "\<forall>w \<in> set (scored_titles
                 (validateWorkItemChunk dice striptags cid title description ti di fetched))
           \<union> set (scored_descriptions
                 (validateWorkItemChunk dice striptags cid title description ti di fetched)).
      wi_id w \<noteq> cid"
    using chunk_scored_subset [of dice striptags cid title description ti di fetched] by blast
next
  fix r workitems
  assume a: "fetched = Reply r \<and> 200 \<le> status r \<and> status r < 300
          \<and> json_value r = Some workitems \<and> (\<forall>w \<in> set workitems. wi_id w = cid)"
  then have "filter (\<lambda>w. wi_id w \<noteq> cid) workitems = []" by (simp add: filter_empty_conv)
  with a show "validateWorkItemChunk dice striptags cid title description ti di fetched
            = \<lparr> verdict = Resolved False, scored_titles = [], scored_descriptions = [] \<rparr>"
    by (simp add: chunk_evaluation_success Let_def)
qed

theorem validateWorkItemChunk_excludes_current_witness:
  "IdNumber 7 \<notin> wi_id ` set (scored_titles
       (validateWorkItemChunk score striptags_markup (IdNumber 7) ''foo bar'' [] 0.95 0.85
          (Reply sample_response)))
   \<and> map wi_id (scored_titles
       (validateWorkItemChunk score striptags_markup (IdNumber 7) ''foo bar'' [] 0.95 0.85
          (Reply sample_response))) = [IdNumber 8, IdNumber 9]"
proof -
  have "IdNumber 7 \<notin> wi_id ` set (scored_titles
       (validateWorkItemChunk score striptags_markup (IdNumber 7) ''foo bar'' [] 0.95 0.85
          (Reply sample_response)))"
    using validateWorkItemChunk_excludes_current
      [of score striptags_markup "IdNumber 7" "''foo bar''" "[]" "0.95" "0.85"
          "Reply sample_response"]
    by auto
  moreover have "map wi_id (scored_titles
       (validateWorkItemChunk score striptags_markup (IdNumber 7) ''foo bar'' [] 0.95 0.85
          (Reply sample_response))) = [IdNumber 8, IdNumber 9]"
    unfolding sample_chunk_by_title by simp
  ultimately show ?thesis by (rule conjI)
qed







text \<open>
  The proviso at work, with the scorer as the specification describes it: two empty texts
  score 1, the threshold is reached, and the titles are not scanned.
\<close>

lemma empty_title_not_scanned:
  "verdict (validateWorkItemChunk score striptags_markup (IdString ''-1'') [] ''something''
              0.95 0.85
              (Reply \<lparr> status = 200, json_value = Some
                 [\<lparr> wi_id = IdNumber 8, wi_title = Some ''...'',
                    wi_description = Some ''other'' \<rparr>] \<rparr>)) = Resolved False
   \<and> 0.95 \<le> score [] (normalizeString striptags_markup (Some ''...''))"
  by (simp add: validateWorkItemChunk_def sample_normalized sample_scores)

subsection \<open>Fetching with retries\<close>





subsection \<open>The detection pass and the trigger\<close>

lemma report_verdict_gate:
  "invalid_fields h \<noteq> [] \<Longrightarrow> report_verdict h duplicate this = (SkippedInvalidFields, this)"
  by (simp add: report_verdict_def)

text \<open>
  Claim C9. When the form reports an invalid field, a pass makes no call on the error
  state of the form and reports no verdict, whatever the chunks have found.
\<close>

theorem validateWorkItem_gate:
  "invalid_fields h \<noteq> []
   \<Longrightarrow> form_calls (snd (validateWorkItem dice striptags h title description this))
         = form_calls this
       \<and> (\<forall>duplicate. fst (validateWorkItem dice striptags h title description this)
             \<noteq> Verdict duplicate)"
  by (simp add: validateWorkItem_def Let_def split_beta report_verdict_gate
        split: option.split settled.split)

theorem validateWorkItem_gate_witness:
  "invalid_fields sample_host \<noteq> []
   \<and> form_calls (snd (validateWorkItem score striptags_markup sample_host None None
                        sample_observer)) = [SetError duplicate_message]
   \<and> fst (validateWorkItem score striptags_markup (sample_host\<lparr>invalid_fields := []\<rparr>)
            None None sample_observer) = Verdict True"
  using validateWorkItem_gate [of sample_host score striptags_markup None None sample_observer]
    sample_pass_without_gate
  by (simp add: sample_host_def sample_observer_def)

lemma onFieldChanged_schedules:
  assumes "truthy title \<or> truthy description"
  shows "timeout (onFieldChanged title description this) = Some (next_timer this)
    \<and> timers (onFieldChanged title description this)
        = (case timeout this of
             None \<Rightarrow> timers this
           | Some handle \<Rightarrow> filter (\<lambda>timer. fst timer \<noteq> handle) (timers this))
          @ [(next_timer this, title, description)]
    \<and> onFieldChanged title description this \<noteq> this"
proof -
  have "next_timer (onFieldChanged title description this) = Suc (next_timer this)"
    using assms
    by (simp add: onFieldChanged_def setTimeout_def clearTimeout_def split: option.split)
  then have "onFieldChanged title description this \<noteq> this"
    by (metis n_not_Suc_n)
  with assms show ?thesis
    by (simp add: onFieldChanged_def setTimeout_def clearTimeout_def split: option.split)
qed

text \<open>
  Claim C10. A field change that carries neither a title nor a description that is
  present and not empty leaves the observer as it was: the kept handle, the timers
  that are set with the values they captured, the stored thresholds and the calls made
  on the form. A timer that was set before fires as it would have without the event.
\<close>

theorem onFieldChanged_nothing_changed:
  "\<not> truthy title \<Longrightarrow> \<not> truthy description
   \<Longrightarrow> onFieldChanged title description this = this
     \<and> timer_fires dice striptags h handle (onFieldChanged title description this)
         = timer_fires dice striptags h handle this"
  by (simp add: onFieldChanged_def)

theorem onFieldChanged_nothing_changed_witness:
  "\<not> truthy (Some []) \<and> \<not> truthy None
   \<and> onFieldChanged (Some []) None sample_observer = sample_observer
   \<and> timers (onFieldChanged (Some []) None sample_observer) = [(4, Some ''foo bar'', None)]
   \<and> form_calls (onFieldChanged (Some []) None sample_observer) = [SetError duplicate_message]"
proof -
  have a: "\<not> truthy (Some [])" and b: "\<not> truthy None" by (simp_all add: truthy_def)
  from onFieldChanged_nothing_changed [OF a b, of sample_observer] a b
  show ?thesis by (simp add: sample_observer_def)
qed

end
